theory Spec2Isabelle
  imports Complex_Main "HOL-Library.Word"
begin

section \<open>JavaScript numbers\<close>

text \<open>
  The detector of \<^verbatim>\<open>script.js\<close> computes with JavaScript numbers, which are doubles. A
  finite number is modelled by the real it denotes and the one non-number the code can
  produce, \<^verbatim>\<open>NaN\<close>, by a constructor of its own. Infinities do not arise: the only
  division by a value that can be zero is \<^verbatim>\<open>sumSq / uint8.length\<close> on an empty buffer,
  where \<^verbatim>\<open>sumSq\<close> is still \<^verbatim>\<open>0\<close>, and \<^verbatim>\<open>0 / 0\<close> is \<^verbatim>\<open>NaN\<close>.
\<close>

datatype number = NaN | Num real

subsection \<open>Rounding to a double\<close>

text \<open>
  Every arithmetic operation returns the double nearest to the exact result, ties going
  to the even significand. A double has 53 significant bits: the doubles around \<open>x\<close> are
  the multiples of \<open>ulp x\<close>, which is \<open>2 ^ (e - 52)\<close> for \<open>2 ^ e \<le> \<bar>x\<bar> < 2 ^ (e + 1)\<close>. The
  exponent is not bounded here: the numbers of the detector (bytes, their means, levels
  up to 100, clock readings in milliseconds and their differences) stay far from both
  ends of the range of a double.
\<close>

definition round_even :: "real \<Rightarrow> int" where
  "round_even y =
     (let f = \<lfloor>y\<rfloor>; d = y - of_int f
      in if d < 1 / 2 then f else if 1 / 2 < d then f + 1 else if even f then f else f + 1)"

definition ulp :: "real \<Rightarrow> real" where
  "ulp x = 2 powr (of_int \<lfloor>log 2 \<bar>x\<bar>\<rfloor> - 52)"

definition fl :: "real \<Rightarrow> real" where
  "fl x = (if x = 0 then 0 else of_int (round_even (x / ulp x)) * ulp x)"

text \<open>\<^verbatim>\<open>a + b\<close>, rounded.\<close>

fun num_add :: "number \<Rightarrow> number \<Rightarrow> number" where
  "num_add (Num a) (Num b) = Num (fl (a + b))"
| "num_add _ _ = NaN"

text \<open>\<^verbatim>\<open>a > b\<close>: every comparison with \<^verbatim>\<open>NaN\<close> is false.\<close>

fun num_gt :: "number \<Rightarrow> number \<Rightarrow> bool" where
  "num_gt (Num a) (Num b) = (a > b)"
| "num_gt _ _ = False"

text \<open>\<^verbatim>\<open>Math.max(a, b)\<close>: \<^verbatim>\<open>NaN\<close> as soon as one argument is.\<close>

fun math_max :: "number \<Rightarrow> number \<Rightarrow> number" where
  "math_max (Num a) (Num b) = Num (max a b)"
| "math_max _ _ = NaN"

text \<open>
  \<^verbatim>\<open>x || 0\<close> where \<open>x\<close> is an array element: \<open>None\<close> stands for \<^verbatim>\<open>undefined\<close> (a read
  past the end). The falsy values \<^verbatim>\<open>undefined\<close>, \<^verbatim>\<open>NaN\<close> and \<^verbatim>\<open>0\<close> all give \<^verbatim>\<open>0\<close>.
\<close>

fun or_zero :: "number option \<Rightarrow> number" where
  "or_zero None = Num 0"
| "or_zero (Some NaN) = Num 0"
| "or_zero (Some (Num x)) = (if x = 0 then Num 0 else Num x)"

section \<open>Feature extraction\<close>

text \<open>A \<^verbatim>\<open>Uint8Array\<close> is a list of bytes.\<close>

type_synonym uint8array = "8 word list"

text \<open>
  The loop of \<^verbatim>\<open>computeRMS\<close> visits every element in order and accumulates
  \<^verbatim>\<open>v * v\<close> with \<^verbatim>\<open>v = (uint8[i] - 128) / 128\<close>. Nothing is rounded in it: \<open>v\<close> is an
  integer from -128 to 127 over \<open>2 ^ 7\<close>, its square an integer up to \<open>2 ^ 14\<close> over
  \<open>2 ^ 14\<close>, and the sum of fewer than \<open>2 ^ 39\<close> such squares an integer below \<open>2 ^ 53\<close>
  over \<open>2 ^ 14\<close>: all of them doubles. (The buffer of the detector has 512 samples.)
\<close>

fun rms_loop :: "uint8array \<Rightarrow> real \<Rightarrow> real" where
  "rms_loop [] sumSq = sumSq"
| "rms_loop (b # bs) sumSq =
     (let v = (real (unat b) - 128) / 128 in rms_loop bs (sumSq + v * v))"

text \<open>
  \<^verbatim>\<open>Math.sqrt(sumSq / uint8.length) * 100\<close>: the quotient, the square root and the
  product are each rounded. (\<^verbatim>\<open>Math.sqrt\<close> is taken to be the correctly rounded square
  root of the processor, as the engines implement it.)
\<close>

definition computeRMS :: "uint8array \<Rightarrow> number" where
  "computeRMS uint8 =
     (let sumSq = rms_loop uint8 0
      in if length uint8 = 0 then NaN
         else Num (fl (fl (sqrt (fl (sumSq / real (length uint8)))) * 100)))"

subsection \<open>The index products \<^verbatim>\<open>Math.floor(length * 0.35)\<close> and \<^verbatim>\<open>Math.floor(length * 0.9)\<close>\<close>

text \<open>
  The literals \<^verbatim>\<open>0.35\<close> and \<^verbatim>\<open>0.9\<close> are the doubles \<open>6305039478318694 / 2 ^ 54\<close> and
  \<open>8106479329266893 / 2 ^ 53\<close>. The product with the length is rounded to 53 significant
  bits, ties to even, before \<^verbatim>\<open>Math.floor\<close> is taken; for a length of 180 this gives 62
  where the exact product 63 would be expected.
\<close>

fun bit_length :: "nat \<Rightarrow> nat" where
  "bit_length n = (if n = 0 then 0 else Suc (bit_length (n div 2)))"

declare bit_length.simps [simp del]

definition round53 :: "nat \<Rightarrow> nat" where
  "round53 N =
     (let b = bit_length N
      in if b \<le> 53 then N
         else let s = b - 53; q = N div 2 ^ s; r = N mod 2 ^ s; h = 2 ^ (s - 1)
              in (if r > h \<or> (r = h \<and> odd q) then q + 1 else q) * 2 ^ s)"

definition mul_floor :: "nat \<Rightarrow> nat \<Rightarrow> nat \<Rightarrow> nat" where
  "mul_floor L m k = round53 (L * m) div 2 ^ k"

definition hf_start :: "nat \<Rightarrow> nat" where
  "hf_start L = mul_floor L 6305039478318694 54"

definition hf_end :: "nat \<Rightarrow> nat" where
  "hf_end L = mul_floor L 8106479329266893 53"

text \<open>
  \<^verbatim>\<open>freqData[i]\<close> as a summand: a read past the end of a typed array is
  \<^verbatim>\<open>undefined\<close>, which \<^verbatim>\<open>sum += \<close> turns into \<^verbatim>\<open>NaN\<close>.
\<close>

definition byte_at :: "uint8array \<Rightarrow> nat \<Rightarrow> number" where
  "byte_at freqData i =
     (if i < length freqData then Num (real (unat (freqData ! i))) else NaN)"

text \<open>
  \<^verbatim>\<open>sum += freqData[i]\<close>: the sum of bytes is an integer, and below \<open>2 ^ 53\<close> for every
  buffer of fewer than \<open>2 ^ 45\<close> bins, hence a double: this addition is exact. (The
  buffer of the detector has 256 bins.)
\<close>

fun sum_add :: "number \<Rightarrow> number \<Rightarrow> number" where
  "sum_add (Num a) (Num b) = Num (a + b)"
| "sum_add _ _ = NaN"

text \<open>The loop \<^verbatim>\<open>for (let i = start; i < end; i++) { sum += freqData[i]; n++; }\<close>.\<close>

function hf_loop :: "uint8array \<Rightarrow> nat \<Rightarrow> nat \<Rightarrow> number \<Rightarrow> nat \<Rightarrow> number \<times> nat" where
  "hf_loop freqData i stop acc n =
     (if i < stop then hf_loop freqData (Suc i) stop (sum_add acc (byte_at freqData i)) (Suc n)
      else (acc, n))"
  by pat_completeness auto
termination
  by (relation "measure (\<lambda>(freqData, i, stop, acc, n). stop - i)") auto

declare hf_loop.simps [simp del]

text \<open>
  \<^verbatim>\<open>sum / n\<close>, rounded. The count \<open>n\<close> is the number of summands, so a zero count comes
  with a zero sum only, and \<^verbatim>\<open>0 / 0\<close> is \<^verbatim>\<open>NaN\<close>.
\<close>

fun num_div_count :: "number \<Rightarrow> nat \<Rightarrow> number" where
  "num_div_count (Num s) n = (if n = 0 then NaN else Num (fl (s / real n)))"
| "num_div_count NaN n = NaN"

definition computeHighFreqAvg :: "uint8array \<Rightarrow> number" where
  "computeHighFreqAvg freqData =
     (let start = hf_start (length freqData);
          stop = hf_end (length freqData);
          (total, n) = hf_loop freqData start stop (Num 0) 0
      in if n \<noteq> 0 then num_div_count total n else Num 0)"

section \<open>Session state\<close>

text \<open>
  The variables the detector shares between its functions, the one class of the candle
  element it tests and sets (\<open>out\<close> is \<^verbatim>\<open>onlyCandle.classList.contains("out")\<close>), and a
  history of the two calls whose number the specification constrains: \<open>Classified\<close> is
  appended when \<^verbatim>\<open>isBlowing()\<close> is called, \<open>AddedOut\<close> when
  \<^verbatim>\<open>onlyCandle.classList.add("out")\<close> is. The history is never read by the model.
\<close>

datatype event = Classified | AddedOut

record session =
  baselineRMS :: number
  baselineHF :: number
  calibrated :: bool
  out :: bool
  history :: "event list"

text \<open>What the analyser returns at one instant: the time-domain and the frequency bytes.\<close>

type_synonym frame = "uint8array \<times> uint8array"

section \<open>Calibration\<close>

text \<open>
  \<^verbatim>\<open>buf.sort((a,b)=>a-b)\<close>. The comparator's result is the rounded difference, and
  \<^verbatim>\<open>NaN\<close> when an argument is, which the sort reads as \<open>0\<close>. For finite numbers the comparator is a consistent order and the
  result is the ascending stable sort, here by insertion. With a \<^verbatim>\<open>NaN\<close> in the array the
  language leaves the order to the implementation; the theorems below are about finite
  samples only.
\<close>

fun compare_sub :: "number \<Rightarrow> number \<Rightarrow> real" where
  "compare_sub (Num a) (Num b) = fl (a - b)"
| "compare_sub _ _ = 0"

fun insert_sorted :: "number \<Rightarrow> number list \<Rightarrow> number list" where
  "insert_sorted x [] = [x]"
| "insert_sorted x (y # ys) =
     (if compare_sub x y \<le> 0 then x # y # ys else y # insert_sorted x ys)"

fun sort_numbers :: "number list \<Rightarrow> number list" where
  "sort_numbers [] = []"
| "sort_numbers (x # xs) = insert_sorted x (sort_numbers xs)"

text \<open>\<^verbatim>\<open>buf[i]\<close> on an ordinary array: \<^verbatim>\<open>undefined\<close> past the end.\<close>

definition array_get :: "number list \<Rightarrow> nat \<Rightarrow> number option" where
  "array_get buf i = (if i < length buf then Some (buf ! i) else None)"

text \<open>
  Lines 69 to 71 for one buffer: \<^verbatim>\<open>buf.sort((a,b)=>a-b); buf[Math.floor(buf.length/2)] || 0\<close>.
\<close>

definition baseline_of :: "number list \<Rightarrow> number" where
  "baseline_of buf =
     (let sorted = sort_numbers buf
      in or_zero (array_get sorted (length sorted div 2)))"

text \<open>
  The function \<^verbatim>\<open>step\<close> inside \<^verbatim>\<open>calibrate\<close>. Each call reads the analyser and then the
  clock, so the environment is a list of frames, each with the value
  \<^verbatim>\<open>performance.now()\<close> returns after it; \<open>t0\<close> is the clock when calibration began. The
  result is the session and the unread rest of the environment when the promise
  resolves, and \<open>None\<close> when the frames end before 1200 ms have passed: the promise is
  then still pending.
\<close>

fun calibrate_step ::
  "real \<Rightarrow> (frame \<times> real) list \<Rightarrow> number list \<Rightarrow> number list \<Rightarrow> session
    \<Rightarrow> (session \<times> (frame \<times> real) list) option" where
  "calibrate_step t0 [] rmsBuf hfBuf s = None"
| "calibrate_step t0 (((td, fd), now) # rest) rmsBuf hfBuf s =
     (let rmsBuf' = rmsBuf @ [computeRMS td];
          hfBuf' = hfBuf @ [computeHighFreqAvg fd]
      in if fl (now - t0) < 1200 then calibrate_step t0 rest rmsBuf' hfBuf' s
         else Some (s\<lparr>baselineRMS := baseline_of rmsBuf',
                      baselineHF := baseline_of hfBuf',
                      calibrated := True\<rparr>, rest))"

definition calibrate ::
  "real \<Rightarrow> (frame \<times> real) list \<Rightarrow> session \<Rightarrow> (session \<times> (frame \<times> real) list) option" where
  "calibrate t0 env s = calibrate_step t0 env [] [] (s\<lparr>calibrated := False\<rparr>)"

text \<open>
  The contents of \<^verbatim>\<open>rmsBuf\<close> and \<^verbatim>\<open>hfBuf\<close> after \<^verbatim>\<open>step\<close> has read the frames
  \<open>used\<close>, starting from empty buffers.
\<close>

definition rms_samples :: "(frame \<times> real) list \<Rightarrow> number list" where
  "rms_samples used = map (\<lambda>((td, fd), now). computeRMS td) used"

definition hf_samples :: "(frame \<times> real) list \<Rightarrow> number list" where
  "hf_samples used = map (\<lambda>((td, fd), now). computeHighFreqAvg fd) used"

section \<open>Classification\<close>

text \<open>
  Lines 89 to 94 of \<^verbatim>\<open>isBlowing\<close>: the decision on the two features and the baseline.
  Each of the four sums is rounded before it is compared.
\<close>

definition blow_decision :: "number \<Rightarrow> number \<Rightarrow> number \<Rightarrow> number \<Rightarrow> bool" where
  "blow_decision rms hf bRMS bHF =
     (let rmsThresh = math_max (num_add bRMS (Num 5)) (Num 10);
          hfThresh = math_max (num_add bHF (Num 6)) (Num 14);
          hissStrong = num_gt hf (num_add bHF (Num 18));
          combined = (num_gt hf hfThresh
                      \<and> (num_gt rms rmsThresh \<or> num_gt rms (num_add bRMS (Num 12))))
      in hissStrong \<or> combined)"

definition isBlowing :: "frame \<Rightarrow> session \<Rightarrow> bool" where
  "isBlowing fr s =
     (case fr of (td, fd) \<Rightarrow>
        blow_decision (computeRMS td) (computeHighFreqAvg fd) (baselineRMS s) (baselineHF s))"

section \<open>The detection loop\<close>

text \<open>One call of \<^verbatim>\<open>tick\<close> in \<^verbatim>\<open>loopDetect\<close>, on the frame the analyser holds then.\<close>

definition tick :: "frame \<Rightarrow> session \<Rightarrow> session" where
  "tick fr s =
     (if \<not> out s \<and> calibrated s then
        (let s1 = s\<lparr>history := history s @ [Classified]\<rparr>
         in if isBlowing fr s then s1\<lparr>out := True, history := history s1 @ [AddedOut]\<rparr>
            else s1)
      else s)"

text \<open>
  \<^verbatim>\<open>loopDetect\<close> calls \<^verbatim>\<open>tick\<close> once and every tick requests the next one, without end;
  the model runs the ticks of any finite prefix of that run, one frame each. The
  \<^verbatim>\<open>cancelAnimationFrame(rafId)\<close> before the first tick touches none of the variables
  modelled here.
\<close>

fun loopDetect :: "frame list \<Rightarrow> session \<Rightarrow> session" where
  "loopDetect [] s = s"
| "loopDetect (fr # frs) s = loopDetect frs (tick fr s)"

text \<open>\<^verbatim>\<open>calibrate().then(loopDetect)\<close> in \<^verbatim>\<open>startAnalyser\<close>.\<close>

definition startAnalyser :: "real \<Rightarrow> (frame \<times> real) list \<Rightarrow> session \<Rightarrow> session option" where
  "startAnalyser t0 env s =
     (case calibrate t0 env s of
        None \<Rightarrow> None
      | Some (s', rest) \<Rightarrow> Some (loopDetect (map fst rest) s'))"

text \<open>The variables as line 5 initialises them, for a candle whose class list has \<^verbatim>\<open>out\<close> or not.\<close>

definition initial :: "bool \<Rightarrow> session" where
  "initial snuffed = \<lparr>baselineRMS = Num 0, baselineHF = Num 0, calibrated = False,
                out = snuffed, history = []\<rparr>"

section \<open>Rounding\<close>

text \<open>
  Rounding never crosses a double: if \<open>r\<close> is a multiple of \<open>ulp x\<close> on one side of \<open>x\<close>,
  the rounded \<open>x\<close> is on the same side of \<open>r\<close>. Hence a multiple of \<open>ulp x\<close> is not moved,
  and rounding keeps the sign.
\<close>

lemma round_even_le: "y \<le> of_int n \<Longrightarrow> round_even y \<le> n"
proof -
  assume le: "y \<le> of_int n"
  then have f: "\<lfloor>y\<rfloor> \<le> n" by (simp add: floor_le_iff)
  show ?thesis
  proof (cases "\<lfloor>y\<rfloor> = n")
    case True
    then have "of_int n \<le> y" by (metis of_int_floor_le)
    with le have "y = of_int n" by simp
    then show ?thesis by (simp add: round_even_def)
  next
    case False
    with f have "\<lfloor>y\<rfloor> + 1 \<le> n" by simp
    then show ?thesis by (simp add: round_even_def Let_def)
  qed
qed

lemma round_even_ge: "of_int n \<le> y \<Longrightarrow> n \<le> round_even y"
proof -
  assume "of_int n \<le> y"
  then have "n \<le> \<lfloor>y\<rfloor>" by (simp add: le_floor_iff)
  then show ?thesis by (simp add: round_even_def Let_def)
qed

lemma round_even_of_int: "round_even (of_int n) = n"
  by (simp add: round_even_def)

lemma ulp_pos: "0 < ulp x"
  by (simp add: ulp_def)

lemma fl_le: "x \<le> r \<Longrightarrow> r = of_int n * ulp x \<Longrightarrow> fl x \<le> r"
proof (cases "x = 0")
  case True
  assume "x \<le> r"
  with True show ?thesis by (simp add: fl_def)
next
  case False
  assume le: "x \<le> r" and r: "r = of_int n * ulp x"
  have "x / ulp x \<le> of_int n" using le r ulp_pos [of x] by (simp add: pos_divide_le_eq)
  then have "round_even (x / ulp x) \<le> n" by (rule round_even_le)
  then have "of_int (round_even (x / ulp x)) * ulp x \<le> of_int n * ulp x"
    using ulp_pos [of x] by (simp add: mult_right_mono)
  with False r show ?thesis by (simp add: fl_def)
qed

lemma fl_ge: "r \<le> x \<Longrightarrow> r = of_int n * ulp x \<Longrightarrow> r \<le> fl x"
proof (cases "x = 0")
  case True
  assume "r \<le> x"
  with True show ?thesis by (simp add: fl_def)
next
  case False
  assume le: "r \<le> x" and r: "r = of_int n * ulp x"
  have "of_int n \<le> x / ulp x" using le r ulp_pos [of x] by (simp add: pos_le_divide_eq)
  then have "n \<le> round_even (x / ulp x)" by (rule round_even_ge)
  then have "of_int n * ulp x \<le> of_int (round_even (x / ulp x)) * ulp x"
    using ulp_pos [of x] by (simp add: mult_right_mono)
  with False r show ?thesis by (simp add: fl_def)
qed

lemma fl_exact: "x = of_int n * ulp x \<Longrightarrow> fl x = x"
  using fl_le [of x x n] fl_ge [of x x n] by simp

lemma fl_nonneg: "0 \<le> x \<Longrightarrow> 0 \<le> fl x"
  using fl_ge [of 0 x 0] by simp

lemma fl_nonpos: "x \<le> 0 \<Longrightarrow> fl x \<le> 0"
  using fl_le [of x 0 0] by simp

text \<open>A non-zero number is at least \<open>2 ^ 52\<close> of its \<open>ulp\<close>.\<close>

lemma binade: "x \<noteq> 0 \<Longrightarrow> 2 powr of_int \<lfloor>log 2 \<bar>x\<bar>\<rfloor> \<le> \<bar>x\<bar>"
proof -
  assume "x \<noteq> 0"
  then have pos: "0 < \<bar>x\<bar>" by simp
  have "of_int \<lfloor>log 2 \<bar>x\<bar>\<rfloor> \<le> log 2 \<bar>x\<bar>" by simp
  then have "2 powr of_int \<lfloor>log 2 \<bar>x\<bar>\<rfloor> \<le> 2 powr log 2 \<bar>x\<bar>" by (simp only: powr_le_cancel_iff) 
  with pos show ?thesis by simp
qed

lemma scaled_ge: "x \<noteq> 0 \<Longrightarrow> 2 ^ 52 \<le> \<bar>x\<bar> / ulp x"
proof -
  assume nz: "x \<noteq> 0"
  let ?e = "of_int \<lfloor>log 2 \<bar>x\<bar>\<rfloor> :: real"
  have "2 powr ?e = 2 powr (52 + (?e - 52))" by simp
  also have "\<dots> = 2 powr 52 * 2 powr (?e - 52)" by (rule powr_add)
  finally have "2 powr ?e = 2 ^ 52 * ulp x" by (simp add: ulp_def)
  with binade [OF nz] have "2 ^ 52 * ulp x \<le> \<bar>x\<bar>" by simp
  then show ?thesis using ulp_pos [of x] by (simp add: pos_le_divide_eq)
qed

lemma fl_pos: "0 < x \<Longrightarrow> 0 < fl x"
proof -
  assume pos: "0 < x"
  then have "of_int (2 ^ 52) \<le> x / ulp x" using scaled_ge [of x] by simp
  then have "2 ^ 52 \<le> round_even (x / ulp x)" by (rule round_even_ge)
  then have "0 < round_even (x / ulp x)" by simp
  then have "0 < of_int (round_even (x / ulp x)) * ulp x" using ulp_pos [of x] by simp
  with pos show ?thesis by (simp add: fl_def)
qed

lemma fl_le_zero_iff: "fl x \<le> 0 \<longleftrightarrow> x \<le> 0"
  using fl_pos [of x] fl_nonpos [of x] by (cases "x \<le> 0") auto

lemma ulp_eq:
  "2 powr of_int e \<le> \<bar>x\<bar> \<Longrightarrow> \<bar>x\<bar> < 2 powr (of_int e + 1) \<Longrightarrow> ulp x = 2 powr (of_int e - 52)"
proof -
  assume lo: "2 powr of_int e \<le> \<bar>x\<bar>" and hi: "\<bar>x\<bar> < 2 powr (of_int e + 1)"
  have "0 < 2 powr real_of_int e" by simp
  with lo have pos: "0 < \<bar>x\<bar>" by linarith
  have "\<lfloor>log 2 \<bar>x\<bar>\<rfloor> = e"
    using lo hi floor_log_eq_powr_iff [of "\<bar>x\<bar>" 2 e] pos by simp
  then show ?thesis by (simp add: ulp_def)
qed

lemma fl_eval:
  "2 powr of_int e \<le> \<bar>x\<bar> \<Longrightarrow> \<bar>x\<bar> < 2 powr (of_int e + 1) \<Longrightarrow>
   fl x = of_int (round_even (x / 2 powr (of_int e - 52))) * 2 powr (of_int e - 52)"
proof -
  assume lo: "2 powr of_int e \<le> \<bar>x\<bar>" and hi: "\<bar>x\<bar> < 2 powr (of_int e + 1)"
  have "0 < 2 powr real_of_int e" by simp
  with lo have "x \<noteq> 0" by auto
  with ulp_eq [OF lo hi] show ?thesis by (simp add: fl_def)
qed

lemma exponent_le_52: "x \<noteq> 0 \<Longrightarrow> \<bar>x\<bar> < 2 ^ 53 \<Longrightarrow> \<lfloor>log 2 \<bar>x\<bar>\<rfloor> \<le> 52"
proof -
  assume nz: "x \<noteq> 0" and lt: "\<bar>x\<bar> < 2 ^ 53"
  have "\<bar>x\<bar> < 2 powr 53" using lt by simp
  then have "log 2 \<bar>x\<bar> < 53" using nz by (simp add: log_less_iff)
  then have "\<lfloor>log 2 \<bar>x\<bar>\<rfloor> < 53" by (simp add: floor_less_iff)
  then show ?thesis by simp
qed

lemma ulp_small: "\<lfloor>log 2 \<bar>x\<bar>\<rfloor> \<le> 52 \<Longrightarrow> ulp x * 2 ^ nat (52 - \<lfloor>log 2 \<bar>x\<bar>\<rfloor>) = 1"
proof -
  assume le: "\<lfloor>log 2 \<bar>x\<bar>\<rfloor> \<le> 52"
  define k where "k = nat (52 - \<lfloor>log 2 \<bar>x\<bar>\<rfloor>)"
  have "of_int \<lfloor>log 2 \<bar>x\<bar>\<rfloor> - 52 = - real k" using le by (simp add: k_def)
  then have "ulp x = 2 powr (- real k)" by (simp add: ulp_def)
  also have "\<dots> = inverse (2 powr real k)" by (rule powr_minus)
  also have "\<dots> = inverse (2 ^ k)" by (simp add: powr_realpow)
  finally show ?thesis by (simp add: k_def)
qed

lemma int_is_multiple:
  "\<lfloor>log 2 \<bar>x\<bar>\<rfloor> \<le> 52 \<Longrightarrow>
   of_int n = of_int (n * 2 ^ nat (52 - \<lfloor>log 2 \<bar>x\<bar>\<rfloor>)) * ulp x"
proof -
  assume "\<lfloor>log 2 \<bar>x\<bar>\<rfloor> \<le> 52"
  from ulp_small [OF this]
  have "of_int n * (ulp x * 2 ^ nat (52 - \<lfloor>log 2 \<bar>x\<bar>\<rfloor>)) = (of_int n :: real)" by simp
  then show ?thesis by (simp add: mult.assoc mult.commute)
qed

lemma fl_of_int: "\<bar>n\<bar> < 2 ^ 53 \<Longrightarrow> fl (of_int n) = of_int n"
proof (cases "n = 0")
  case True
  then show ?thesis by (simp add: fl_def)
next
  case False
  assume "\<bar>n\<bar> < 2 ^ 53"
  then have "\<bar>real_of_int n\<bar> < 2 ^ 53"
    by (metis of_int_abs of_int_less_iff of_int_numeral of_int_power)
  with False have "\<lfloor>log 2 \<bar>real_of_int n\<bar>\<rfloor> \<le> 52" by (intro exponent_le_52) simp_all
  from int_is_multiple [OF this, of n] show ?thesis by (rule fl_exact)
qed

lemma fl_le_int: "x \<le> of_int n \<Longrightarrow> 0 < x \<Longrightarrow> n < 2 ^ 53 \<Longrightarrow> fl x \<le> of_int n"
proof -
  assume le: "x \<le> of_int n" and pos: "0 < x" and n: "n < 2 ^ 53"
  from n have "real_of_int n < 2 ^ 53"
    by (metis of_int_less_iff of_int_numeral of_int_power)
  with le pos have "\<bar>x\<bar> < 2 ^ 53" by simp
  with pos have "\<lfloor>log 2 \<bar>x\<bar>\<rfloor> \<le> 52" by (intro exponent_le_52) simp_all
  from fl_le [OF le int_is_multiple [OF this]] show ?thesis .
qed

lemma fl_range: "0 \<le> x \<Longrightarrow> x \<le> of_int n \<Longrightarrow> n < 2 ^ 53 \<Longrightarrow> 0 \<le> fl x \<and> fl x \<le> of_int n"
proof -
  assume x0: "0 \<le> x" and le: "x \<le> of_int n" and n: "n < 2 ^ 53"
  show ?thesis
  proof (cases "x = 0")
    case True
    with le show ?thesis by (simp add: fl_def)
  next
    case False
    with x0 have "0 < x" by simp
    from fl_le_int [OF le this n] fl_nonneg [OF x0] show ?thesis by simp
  qed
qed

lemma fl_numeral: "numeral k < (2 :: int) ^ 53 \<Longrightarrow> fl (numeral k) = numeral k"
  using fl_of_int [of "numeral k"] by simp

lemma fl_zero: "fl 0 = 0"
  by (simp add: fl_def)

lemma fl_one: "fl 1 = 1"
  using fl_of_int [of 1] by simp

lemma two_powr_neg: "(2 :: real) powr (- numeral k) = 1 / 2 ^ numeral k"
proof -
  have "(2 :: real) powr (- numeral k) = inverse (2 powr numeral k)" by (rule powr_minus)
  then show ?thesis by (simp add: inverse_eq_divide)
qed

lemma fl_18_141: "fl (18 / 141) = 4599420896037953 / 2 ^ 55"
proof -
  have u: "2 powr (of_int (- 3) - 52) = (1 / 2 ^ 55 :: real)"
    by (simp add: two_powr_neg)
  have "fl (18 / 141) = of_int (round_even ((18 / 141) / 2 powr (of_int (- 3) - 52))) * 2 powr (of_int (- 3) - 52)"
    by (rule fl_eval) (simp_all add: powr_minus)
  then have "fl (18 / 141) = of_int (round_even ((18 / 141) / (1 / 2 ^ 55))) * (1 / 2 ^ 55)"
    unfolding u .
  then show ?thesis by (simp add: round_even_def)
qed

lemma fl_2556_141: "fl (2556 / 141) = 5102482556542105 / 2 ^ 48"
proof -
  have u: "2 powr (of_int 4 - 52) = (1 / 2 ^ 48 :: real)"
    by (simp add: two_powr_neg)
  have "fl (2556 / 141) = of_int (round_even ((2556 / 141) / 2 powr (of_int 4 - 52))) * 2 powr (of_int 4 - 52)"
    by (rule fl_eval) simp_all
  then have "fl (2556 / 141) = of_int (round_even ((2556 / 141) / (1 / 2 ^ 48))) * (1 / 2 ^ 48)"
    unfolding u .
  then show ?thesis by (simp add: round_even_def)
qed

lemma fl_18_141_plus_18: "fl (4599420896037953 / 2 ^ 55 + 18) = 5102482556542105 / 2 ^ 48"
proof -
  let ?x = "4599420896037953 / 2 ^ 55 + 18 :: real"
  have u: "2 powr (of_int 4 - 52) = (1 / 2 ^ 48 :: real)"
    by (simp add: two_powr_neg)
  have "fl ?x = of_int (round_even (?x / 2 powr (of_int 4 - 52))) * 2 powr (of_int 4 - 52)"
    by (rule fl_eval) simp_all
  then have "fl ?x = of_int (round_even (?x / (1 / 2 ^ 48))) * (1 / 2 ^ 48)"
    unfolding u .
  then show ?thesis by (simp add: round_even_def)
qed

section \<open>The index products\<close>

text \<open>
  The bit length of a positive number is the position of its leading bit, so rounding to
  53 bits moves a number by at most its \<open>2 ^ 53\<close>-th part. The factor \<^verbatim>\<open>0.9\<close> is
  below one by more than that, hence the end index never passes the end of the buffer
  and the loop of \<^verbatim>\<open>computeHighFreqAvg\<close> reads inside it.
\<close>

lemma bit_length_pos: "0 < n \<Longrightarrow> 0 < bit_length n"
  by (subst bit_length.simps) simp

lemma bit_length_lower: "0 < n \<Longrightarrow> 2 ^ (bit_length n - 1) \<le> n"
proof (induction n rule: bit_length.induct)
  case (1 n)
  show ?case
  proof (cases "n div 2 = 0")
    case True
    then have "bit_length (n div 2) = 0" by (simp add: bit_length.simps)
    with 1 show ?thesis by (subst bit_length.simps) simp
  next
    case False
    then have pos: "0 < n div 2" by simp
    from 1 pos have ih: "2 ^ (bit_length (n div 2) - 1) \<le> n div 2" by simp
    from pos have "0 < bit_length (n div 2)" by (rule bit_length_pos)
    then have "(2::nat) ^ bit_length (n div 2) = 2 * 2 ^ (bit_length (n div 2) - 1)"
      by (cases "bit_length (n div 2)") simp_all
    with ih have "(2::nat) ^ bit_length (n div 2) \<le> n" by linarith
    with 1 show ?thesis by (subst bit_length.simps) simp
  qed
qed

lemma round53_upper: "round53 N \<le> N + N div 2 ^ 53"
proof (cases "bit_length N \<le> 53")
  case True
  then show ?thesis by (simp add: round53_def)
next
  case False
  define s where "s = bit_length N - 53"
  define q where "q = N div 2 ^ s"
  define r where "r = N mod 2 ^ s"
  define h :: nat where "h = 2 ^ (s - 1)"
  from False have spos: "0 < s" by (simp add: s_def)
  have Npos: "0 < N" using False by (cases "N = 0") (simp_all add: bit_length.simps)
  have N: "N = q * 2 ^ s + r" by (simp only: q_def r_def div_mult_mod_eq)
  have twoh: "(2::nat) ^ s = 2 * h" using spos by (cases s) (simp_all add: h_def)
  have "bit_length N - 1 = (s - 1) + 53" using False spos by (simp add: s_def)
  then have "h * 2 ^ 53 = 2 ^ (bit_length N - 1)" by (simp only: h_def power_add)
  also have "\<dots> \<le> N" using Npos by (rule bit_length_lower)
  finally have "h * 2 ^ 53 div 2 ^ 53 \<le> N div 2 ^ 53" by (rule div_le_mono)
  then have hle: "h \<le> N div 2 ^ 53" by simp
  have r53: "round53 N = (if r > h \<or> (r = h \<and> odd q) then q + 1 else q) * 2 ^ s"
    using False by (simp add: round53_def Let_def s_def q_def r_def h_def)
  have "round53 N \<le> N + h"
  proof (cases "r > h \<or> (r = h \<and> odd q)")
    case True
    then have "h \<le> r" by auto
    have "round53 N = q * 2 ^ s + 2 * h" using True r53 twoh by (simp add: algebra_simps)
    with N \<open>h \<le> r\<close> show ?thesis by linarith
  next
    case False
    with r53 have "round53 N = q * 2 ^ s" by simp
    with N show ?thesis by linarith
  qed
  with hle show ?thesis by linarith
qed

lemma hf_end_le: "hf_end L \<le> L"
proof -
  let ?m = "8106479329266893::nat"
  have "L * ?m div 2 ^ 53 \<le> L * 2 ^ 53 div 2 ^ 53"
    by (intro div_le_mono mult_le_mono2) simp
  then have d: "L * ?m div 2 ^ 53 \<le> L" by simp
  have "round53 (L * ?m) \<le> L * ?m + L * ?m div 2 ^ 53" by (rule round53_upper)
  also have "\<dots> \<le> L * ?m + L" using d by simp
  also have "\<dots> \<le> L * 2 ^ 53" by simp
  finally have "round53 (L * ?m) div 2 ^ 53 \<le> L * 2 ^ 53 div 2 ^ 53" by (rule div_le_mono)
  then show ?thesis by (simp add: hf_end_def mul_floor_def)
qed

lemmas index_eval = hf_start_def hf_end_def mul_floor_def round53_def bit_length.simps

text \<open>
  The analyser of \<^verbatim>\<open>startAnalyser\<close> has \<^verbatim>\<open>fftSize = 512\<close>, hence 256 frequency bins: the
  band is the bins 89 to 229. For 180 bins the rounded product gives 62.
\<close>

lemma band_of_256: "hf_start 256 = 89 \<and> hf_end 256 = 230"
  by (simp add: index_eval)

lemma band_of_180: "hf_start 180 = 62 \<and> hf_end 180 = 162"
  by (simp add: index_eval)

section \<open>Feature extraction: results and ranges\<close>

lemma byte_le_255: "real (unat (b :: 8 word)) \<le> 255"
proof -
  have "unat b < 2 ^ 8" using unsigned_less [of b] by simp
  then have "unat b \<le> 255" by simp
  then have "real (unat b) \<le> real 255" by (simp only: of_nat_le_iff)
  then show ?thesis by simp
qed

lemma byte_ge_0: "0 \<le> real (unat (b :: 8 word))"
  by (rule of_nat_0_le_iff)

lemma byte_at_range:
  "i < length freqData \<Longrightarrow> \<exists>v. byte_at freqData i = Num v \<and> 0 \<le> v \<and> v \<le> 255"
proof -
  assume "i < length freqData"
  have "real (unat (freqData ! i)) \<le> 255" "0 \<le> real (unat (freqData ! i))"
    by (rule byte_le_255, rule byte_ge_0)
  with \<open>i < length freqData\<close> show ?thesis by (simp add: byte_at_def)
qed

lemma hf_loop_sum:
  "stop \<le> length freqData \<Longrightarrow>
   \<exists>t. hf_loop freqData i stop (Num a) n = (Num t, n + (stop - i))
       \<and> a \<le> t \<and> t \<le> a + 255 * real (stop - i)"
proof (induction freqData i stop "Num a" n arbitrary: a rule: hf_loop.induct)
  case (1 freqData i stop n)
  show ?case
  proof (cases "i < stop")
    case False
    then show ?thesis by (subst hf_loop.simps) simp
  next
    case True
    with 1(2) have "i < length freqData" by simp
    then obtain v where v: "byte_at freqData i = Num v" "0 \<le> v" "v \<le> 255"
      using byte_at_range by blast
    have add: "sum_add (Num a) (byte_at freqData i) = Num (a + v)" by (simp add: v(1))
    from 1(1) [OF True add 1(2)]
    obtain t where t: "hf_loop freqData (Suc i) stop (Num (a + v)) (Suc n) = (Num t, Suc n + (stop - Suc i))"
      "a + v \<le> t" "t \<le> a + v + 255 * real (stop - Suc i)" by blast
    have cnt: "Suc n + (stop - Suc i) = n + (stop - i)" using True by simp
    have r: "real (stop - i) = 1 + real (stop - Suc i)" using True by (simp add: Suc_diff_Suc)
    have "hf_loop freqData i stop (Num a) n = (Num t, n + (stop - i))"
      using True t(1) add cnt by (subst hf_loop.simps) simp
    moreover have "a \<le> t" using t(2) v(2) by linarith
    moreover have "t \<le> a + 255 * real (stop - i)" using t(3) v(3) r by simp
    ultimately show ?thesis by blast
  qed
qed

lemma hf_loop_empty: "stop \<le> i \<Longrightarrow> hf_loop freqData i stop acc n = (acc, n)"
  by (subst hf_loop.simps) simp

lemma computeHighFreqAvg_range:
  "\<exists>r. computeHighFreqAvg freqData = Num r \<and> 0 \<le> r \<and> r \<le> 255"
proof -
  define start where "start = hf_start (length freqData)"
  define stop where "stop = hf_end (length freqData)"
  have "stop \<le> length freqData" unfolding stop_def by (rule hf_end_le)
  then obtain t where t: "hf_loop freqData start stop (Num 0) 0 = (Num t, 0 + (stop - start))"
    "0 \<le> t" "t \<le> 0 + 255 * real (stop - start)"
    using hf_loop_sum [of stop freqData start 0 0] by blast
  show ?thesis
  proof (cases "stop - start = 0")
    case True
    with t(1) show ?thesis
      by (simp add: computeHighFreqAvg_def start_def [symmetric] stop_def [symmetric])
  next
    case False
    then have pos: "0 < real (stop - start)" by simp
    define q where "q = t / real (stop - start)"
    have "hf_loop freqData start stop (Num 0) 0 = (Num t, stop - start)" using t(1) by simp
    then have "computeHighFreqAvg freqData = Num (fl q)"
      using False
      by (simp add: computeHighFreqAvg_def start_def [symmetric] stop_def [symmetric] q_def)
    moreover have "0 \<le> q" using t(2) by (simp add: q_def)
    moreover have "q \<le> of_int 255"
      using t(3) pos by (simp add: q_def pos_divide_le_eq)
    ultimately show ?thesis using fl_range [of q 255] by auto
  qed
qed

lemma rms_loop_bounds:
  "sumSq \<le> rms_loop uint8 sumSq \<and> rms_loop uint8 sumSq \<le> sumSq + real (length uint8)"
proof (induction uint8 arbitrary: sumSq)
  case Nil
  then show ?case by simp
next
  case (Cons b bs)
  define v where "v = (real (unat b) - 128) / 128"
  have "real (unat b) \<le> 255" "0 \<le> real (unat b)"
    by (rule byte_le_255, rule byte_ge_0)
  then have "- 1 \<le> v" "v \<le> 1" by (simp_all add: v_def)
  then have "\<bar>v\<bar> \<le> 1" by simp
  then have sq1: "v * v \<le> 1" using abs_square_le_1 [of v] by (simp add: power2_eq_square)
  have sq0: "0 \<le> v * v" by simp
  have step: "rms_loop (b # bs) sumSq = rms_loop bs (sumSq + v * v)"
    by (simp only: rms_loop.simps Let_def v_def)
  have len: "real (length (b # bs)) = 1 + real (length bs)" by simp
  from Cons [of "sumSq + v * v"] sq0 sq1 show ?case
    unfolding step len by linarith
qed

lemma computeRMS_range:
  "uint8 \<noteq> [] \<Longrightarrow> \<exists>r. computeRMS uint8 = Num r \<and> 0 \<le> r \<and> r \<le> 100"
proof -
  assume ne: "uint8 \<noteq> []"
  define m where "m = rms_loop uint8 0 / real (length uint8)"
  from ne have len: "0 < real (length uint8)" by simp
  have b: "0 \<le> rms_loop uint8 0" "rms_loop uint8 0 \<le> real (length uint8)"
    using rms_loop_bounds [of 0 uint8] by simp_all
  have m0: "0 \<le> m" using b(1) by (simp add: m_def)
  have m1: "m \<le> 1" using b(2) len by (simp add: m_def pos_divide_le_eq)
  from fl_range [of m 1] m0 m1 have fm: "0 \<le> fl m" "fl m \<le> 1" by simp_all
  define r where "r = sqrt (fl m)"
  have "0 \<le> r" "r \<le> 1" using fm by (simp_all add: r_def)
  with fl_range [of r 1] have fr: "0 \<le> fl r" "fl r \<le> 1" by simp_all
  then have "0 \<le> fl r * 100" "fl r * 100 \<le> of_int 100" by simp_all
  with fl_range [of "fl r * 100" 100]
  have "0 \<le> fl (fl r * 100)" "fl (fl r * 100) \<le> 100" by simp_all
  moreover have "computeRMS uint8 = Num (fl (fl r * 100))"
    using ne by (simp add: computeRMS_def m_def r_def)
  ultimately show ?thesis by simp
qed

text \<open>
  Values at small buffers. The empty time-domain buffer is the one input on which a
  feature is not a number.
\<close>

lemma computeRMS_empty: "computeRMS [] = NaN"
  by (simp add: computeRMS_def)

lemma rms_full: "computeRMS [0] = Num 100"
  by (simp add: computeRMS_def fl_one fl_numeral)

lemma hf_one: "computeHighFreqAvg [7] = Num 0"
  by (simp add: computeHighFreqAvg_def hf_start_def hf_end_def mul_floor_def round53_def bit_length.simps hf_loop.simps)

lemma fl_5_2: "fl (5 / 2) = 5 / 2"
proof -
  have u: "2 powr (of_int 1 - 52) = (1 / 2 ^ 51 :: real)"
    by (simp add: two_powr_neg)
  have "fl (5 / 2) = of_int (round_even ((5 / 2) / 2 powr (of_int 1 - 52))) * 2 powr (of_int 1 - 52)"
    by (rule fl_eval) simp_all
  then have "fl (5 / 2) = of_int (round_even ((5 / 2) / (1 / 2 ^ 51))) * (1 / 2 ^ 51)"
    unfolding u .
  then show ?thesis by (simp add: round_even_def)
qed

lemma hf_four: "computeHighFreqAvg [1,2,3,4] = Num (5/2)"
  by (simp add: computeHighFreqAvg_def hf_start_def hf_end_def mul_floor_def round53_def bit_length.simps hf_loop.simps byte_at_def fl_5_2)

lemma hf_255: "computeHighFreqAvg [255,255,255,255] = Num 255"
  by (simp add: computeHighFreqAvg_def hf_start_def hf_end_def mul_floor_def round53_def bit_length.simps hf_loop.simps byte_at_def fl_numeral)

section \<open>Calibration: the sorted buffer and the element taken\<close>

lemma compare_sub_Num: "compare_sub (Num x) (Num y) \<le> 0 \<longleftrightarrow> x \<le> y"
  by (simp add: fl_le_zero_iff)

lemma insert_sorted_Num:
  "insert_sorted (Num x) (map Num ys) = map Num (insort x ys)"
  by (induction ys) (simp_all add: compare_sub_Num del: compare_sub.simps)

lemma sort_numbers_Num: "sort_numbers (map Num xs) = map Num (sort xs)"
  by (induction xs) (simp_all add: insert_sorted_Num)

lemma baseline_of_Num:
  "baseline_of (map Num xs) = (if xs = [] then Num 0 else Num (sort xs ! (length xs div 2)))"
proof (cases "xs = []")
  case True
  then show ?thesis by (simp add: baseline_of_def array_get_def)
next
  case False
  then have "length xs div 2 < length xs" by simp
  then show ?thesis using False
    by (simp add: baseline_of_def array_get_def sort_numbers_Num)
qed

lemma calibrate_step_result:
  "calibrate_step t0 env rmsBuf hfBuf s = Some (s', rest) \<Longrightarrow>
   \<exists>used. env = used @ rest \<and> used \<noteq> []
     \<and> s' = s\<lparr>baselineRMS := baseline_of (rmsBuf @ rms_samples used),
              baselineHF := baseline_of (hfBuf @ hf_samples used),
              calibrated := True\<rparr>"
proof (induction env arbitrary: rmsBuf hfBuf)
  case Nil
  then show ?case by simp
next
  case (Cons e env)
  obtain td fd now where e: "e = ((td, fd), now)" by (cases e) auto
  show ?case
  proof (cases "fl (now - t0) < 1200")
    case True
    with Cons.prems e have
      "calibrate_step t0 env (rmsBuf @ [computeRMS td]) (hfBuf @ [computeHighFreqAvg fd]) s
         = Some (s', rest)" by (simp add: Let_def)
    from Cons.IH [OF this] obtain used where u: "env = used @ rest"
      "s' = s\<lparr>baselineRMS := baseline_of ((rmsBuf @ [computeRMS td]) @ rms_samples used),
              baselineHF := baseline_of ((hfBuf @ [computeHighFreqAvg fd]) @ hf_samples used),
              calibrated := True\<rparr>" by blast
    have "e # env = (e # used) @ rest" using u(1) by simp
    moreover have "e # used \<noteq> []" by simp
    moreover have "s' = s\<lparr>baselineRMS := baseline_of (rmsBuf @ rms_samples (e # used)),
              baselineHF := baseline_of (hfBuf @ hf_samples (e # used)),
              calibrated := True\<rparr>"
      using u(2) e by (simp add: rms_samples_def hf_samples_def)
    ultimately show ?thesis by blast
  next
    case False
    with Cons.prems e have r: "rest = env"
      "s' = s\<lparr>baselineRMS := baseline_of (rmsBuf @ [computeRMS td]),
              baselineHF := baseline_of (hfBuf @ [computeHighFreqAvg fd]),
              calibrated := True\<rparr>" by (simp_all add: Let_def)
    have "e # env = [e] @ rest" using r(1) by simp
    moreover have "[e] \<noteq> []" by simp
    moreover have "s' = s\<lparr>baselineRMS := baseline_of (rmsBuf @ rms_samples [e]),
              baselineHF := baseline_of (hfBuf @ hf_samples [e]),
              calibrated := True\<rparr>"
      using r(2) e by (simp add: rms_samples_def hf_samples_def)
    ultimately show ?thesis by blast
  qed
qed

lemma calibrate_result:
  "calibrate t0 env s = Some (s', rest) \<Longrightarrow>
   \<exists>used. env = used @ rest \<and> used \<noteq> []
     \<and> s' = s\<lparr>baselineRMS := baseline_of (rms_samples used),
              baselineHF := baseline_of (hf_samples used),
              calibrated := True\<rparr>"
proof -
  assume "calibrate t0 env s = Some (s', rest)"
  then have "calibrate_step t0 env [] [] (s\<lparr>calibrated := False\<rparr>) = Some (s', rest)"
    by (simp add: calibrate_def)
  from calibrate_step_result [OF this] show ?thesis by auto
qed

lemma calibrate_keeps:
  "calibrate t0 env s = Some (s', rest) \<Longrightarrow> history s' = history s \<and> out s' = out s \<and> calibrated s'"
  using calibrate_result [of t0 env s s' rest] by auto

text \<open>
  Calibration completes as soon as one frame is read when the rounded difference of the
  clock readings is 1200 or more, and is still pending while every frame read is earlier
  than that.
\<close>

lemma calibrate_step_completes:
  "\<exists>e \<in> set env. 1200 \<le> fl (snd e - t0) \<Longrightarrow>
   \<exists>s' rest. calibrate_step t0 env rmsBuf hfBuf s = Some (s', rest)"
proof (induction env arbitrary: rmsBuf hfBuf)
  case Nil
  then show ?case by simp
next
  case (Cons e env)
  obtain td fd now where e: "e = ((td, fd), now)" by (cases e) auto
  show ?case
  proof (cases "fl (now - t0) < 1200")
    case True
    with Cons.prems e have "\<exists>e \<in> set env. 1200 \<le> fl (snd e - t0)" by auto
    from Cons.IH [OF this] True e show ?thesis by (simp add: Let_def)
  next
    case False
    with e show ?thesis by (simp add: Let_def)
  qed
qed

lemma calibrate_completes:
  "\<exists>e \<in> set env. 1200 \<le> fl (snd e - t0) \<Longrightarrow> \<exists>s' rest. calibrate t0 env s = Some (s', rest)"
  unfolding calibrate_def by (rule calibrate_step_completes)

lemma calibrate_pending:
  "\<forall>e \<in> set env. fl (snd e - t0) < 1200 \<Longrightarrow> calibrate_step t0 env rmsBuf hfBuf s = None"
  by (induction env arbitrary: rmsBuf hfBuf) (auto simp: Let_def)

lemma hf_samples_finite: "\<exists>ts. hf_samples used = map Num ts"
proof (induction used)
  case Nil
  show ?case by (simp add: hf_samples_def)
next
  case (Cons e used)
  then obtain ts where ts: "hf_samples used = map Num ts" by blast
  obtain td fd now where e: "e = ((td, fd), now)" by (cases e) auto
  obtain r where "computeHighFreqAvg fd = Num r" using computeHighFreqAvg_range by blast
  with ts e have "hf_samples (e # used) = map Num (r # ts)" by (simp add: hf_samples_def)
  then show ?case by blast
qed

lemma rms_samples_finite:
  "\<forall>e \<in> set used. fst (fst e) \<noteq> [] \<Longrightarrow> \<exists>es. rms_samples used = map Num es"
proof (induction used)
  case Nil
  show ?case by (simp add: rms_samples_def)
next
  case (Cons e used)
  then obtain es where es: "rms_samples used = map Num es" by auto
  obtain td fd now where e: "e = ((td, fd), now)" by (cases e) auto
  with Cons.prems have "td \<noteq> []" by simp
  then obtain r where "computeRMS td = Num r" using computeRMS_range by blast
  with es e have "rms_samples (e # used) = map Num (r # es)" by (simp add: rms_samples_def)
  then show ?case by blast
qed

section \<open>Classification and the detection loop\<close>

lemma blow_decision_Num:
  "blow_decision (Num energy) (Num tilt) (Num bEnergy) (Num bTilt) =
     (tilt > fl (bTilt + 18) \<or>
      (tilt > max (fl (bTilt + 6)) 14 \<and>
       (energy > max (fl (bEnergy + 5)) 10 \<or> energy > fl (bEnergy + 12))))"
  by (simp add: blow_decision_def)

lemma blow_decision_mono:
  "t1 \<le> t2 \<Longrightarrow> blow_decision rms (Num t1) bRMS bHF \<Longrightarrow> blow_decision rms (Num t2) bRMS bHF"
  by (cases rms; cases bRMS; cases bHF) (auto simp: blow_decision_def)

lemma fl_159_141: "fl (159 / 141) = 5078527239375240 / 2 ^ 52"
proof -
  let ?x = "159 / 141 :: real"
  have u: "2 powr (of_int 0 - 52) = (1 / 2 ^ 52 :: real)"
    by (simp add: two_powr_neg)
  have "fl ?x = of_int (round_even (?x / 2 powr (of_int 0 - 52))) * 2 powr (of_int 0 - 52)"
    by (rule fl_eval) simp_all
  then have "fl ?x = of_int (round_even (?x / (1 / 2 ^ 52))) * (1 / 2 ^ 52)"
    unfolding u .
  then show ?thesis by (simp add: round_even_def)
qed

lemma fl_2697_141: "fl (2697 / 141) = 5383957533252761 / 2 ^ 48"
proof -
  let ?x = "2697 / 141 :: real"
  have u: "2 powr (of_int 4 - 52) = (1 / 2 ^ 48 :: real)"
    by (simp add: two_powr_neg)
  have "fl ?x = of_int (round_even (?x / 2 powr (of_int 4 - 52))) * 2 powr (of_int 4 - 52)"
    by (rule fl_eval) simp_all
  then have "fl ?x = of_int (round_even (?x / (1 / 2 ^ 48))) * (1 / 2 ^ 48)"
    unfolding u .
  then show ?thesis by (simp add: round_even_def)
qed

lemma fl_159_141_plus_18: "fl (5078527239375240 / 2 ^ 52 + 18) = 5383957533252760 / 2 ^ 48"
proof -
  let ?x = "5078527239375240 / 2 ^ 52 + 18 :: real"
  have u: "2 powr (of_int 4 - 52) = (1 / 2 ^ 48 :: real)"
    by (simp add: two_powr_neg)
  have "fl ?x = of_int (round_even (?x / 2 powr (of_int 4 - 52))) * 2 powr (of_int 4 - 52)"
    by (rule fl_eval) simp_all
  then have "fl ?x = of_int (round_even (?x / (1 / 2 ^ 48))) * (1 / 2 ^ 48)"
    unfolding u .
  then show ?thesis by (simp add: round_even_def)
qed

lemma blow_decision_NaN:
  "\<not> blow_decision rms NaN bRMS bHF"
  "\<not> blow_decision rms hf bRMS NaN"
  "blow_decision NaN (Num tilt) bRMS (Num bTilt) = (tilt > fl (bTilt + 18))"
  "blow_decision rms (Num tilt) NaN (Num bTilt) = (tilt > fl (bTilt + 18))"
proof -
  show "\<not> blow_decision rms NaN bRMS bHF"
    by (simp add: blow_decision_def)
  show "\<not> blow_decision rms hf bRMS NaN"
    by (cases hf) (simp_all add: blow_decision_def)
  show "blow_decision NaN (Num tilt) bRMS (Num bTilt) = (tilt > fl (bTilt + 18))"
    by (simp add: blow_decision_def)
  show "blow_decision rms (Num tilt) NaN (Num bTilt) = (tilt > fl (bTilt + 18))"
    by (cases rms) (simp_all add: blow_decision_def)
qed

lemma fl_int_plus:
  "\<bar>i\<bar> < 2 ^ 52 \<Longrightarrow> \<bar>c\<bar> \<le> 18 \<Longrightarrow> fl (of_int i + of_int c) = of_int i + of_int c"
proof -
  assume "\<bar>i\<bar> < 2 ^ 52" and "\<bar>c\<bar> \<le> 18"
  then have "\<bar>i + c\<bar> < 2 ^ 53" by simp
  from fl_of_int [OF this] show ?thesis by simp
qed

lemma blow_decision_int_baseline:
  "\<bar>i\<bar> < 2 ^ 52 \<Longrightarrow> \<bar>j\<bar> < 2 ^ 52 \<Longrightarrow>
   blow_decision (Num energy) (Num tilt) (Num (of_int i)) (Num (of_int j)) =
     (tilt > of_int j + 18 \<or>
      (tilt > max (of_int j + 6) 14 \<and>
       (energy > max (of_int i + 5) 10 \<or> energy > of_int i + 12)))"
proof -
  assume i: "\<bar>i\<bar> < 2 ^ 52" and j: "\<bar>j\<bar> < 2 ^ 52"
  from fl_int_plus [OF j, of 18] fl_int_plus [OF j, of 6]
    fl_int_plus [OF i, of 5] fl_int_plus [OF i, of 12]
  show ?thesis by (simp add: blow_decision_Num)
qed

text \<open>
  The frequency frames of the detector have 256 bins and the band has 141. A frame whose
  band sums to 18 has the tilt \<open>fl (18 / 141)\<close>, one whose band sums to 2556 the tilt
  \<open>fl (2556 / 141)\<close>; a silent time-domain buffer of 512 samples has the energy 0.
\<close>

lemma hf_loop_sum_list:
  "stop \<le> length freqData \<Longrightarrow> i \<le> stop \<Longrightarrow>
   hf_loop freqData i stop (Num a) n =
     (Num (a + sum_list (map (\<lambda>b. real (unat b)) (take (stop - i) (drop i freqData)))),
      n + (stop - i))"
proof (induction freqData i stop "Num a" n arbitrary: a rule: hf_loop.induct)
  case (1 freqData i stop n)
  show ?case
  proof (cases "i < stop")
    case False
    with 1(3) show ?thesis by (subst hf_loop.simps) simp
  next
    case True
    with 1(2) have lt: "i < length freqData" by simp
    then have add: "sum_add (Num a) (byte_at freqData i) = Num (a + real (unat (freqData ! i)))"
      by (simp add: byte_at_def)
    from True have le: "Suc i \<le> stop" by simp
    note ih = 1(1) [OF True add 1(2) le]
    have d: "drop i freqData = freqData ! i # drop (Suc i) freqData"
      using lt by (simp add: Cons_nth_drop_Suc)
    have t: "stop - i = Suc (stop - Suc i)" using True by simp
    have "sum_list (map (\<lambda>b. real (unat b)) (take (stop - i) (drop i freqData)))
        = real (unat (freqData ! i))
          + sum_list (map (\<lambda>b. real (unat b)) (take (stop - Suc i) (drop (Suc i) freqData)))"
      by (simp only: d t take_Suc_Cons list.map sum_list.Cons)
    with ih True add show ?thesis
      by (subst hf_loop.simps) (simp add: t)
  qed
qed

lemma computeHighFreqAvg_256:
  "length freqData = 256 \<Longrightarrow>
   computeHighFreqAvg freqData =
     Num (fl (sum_list (map (\<lambda>b. real (unat b)) (take 141 (drop 89 freqData))) / 141))"
proof -
  assume len: "length freqData = 256"
  have "hf_loop freqData 89 230 (Num 0) 0 =
     (Num (0 + sum_list (map (\<lambda>b. real (unat b)) (take (230 - 89) (drop 89 freqData)))),
      0 + (230 - 89))"
    by (rule hf_loop_sum_list) (simp_all add: len)
  then show ?thesis using band_of_256 by (simp add: computeHighFreqAvg_def len)
qed

lemma rms_loop_silent: "rms_loop (replicate n 128) sumSq = sumSq"
  by (induction n) simp_all

lemma computeRMS_silent: "computeRMS (replicate 512 128) = Num 0"
  by (simp add: computeRMS_def rms_loop_silent fl_zero)

lemma tilt_of_band_sum_18:
  "computeHighFreqAvg (replicate 89 0 @ replicate 18 1 @ replicate 149 0) = Num (fl (18 / 141))"
  by (simp add: computeHighFreqAvg_256 sum_list_replicate)

lemma tilt_of_band_sum_2556:
  "computeHighFreqAvg (replicate 89 0 @ replicate 123 18 @ replicate 18 19 @ replicate 26 0)
     = Num (fl (2556 / 141))"
  by (simp add: computeHighFreqAvg_256 sum_list_replicate)

lemma tilt_of_band_sum_159:
  "computeHighFreqAvg (replicate 89 0 @ replicate 123 1 @ replicate 18 2 @ replicate 26 0)
     = Num (fl (159 / 141))"
  by (simp add: computeHighFreqAvg_256 sum_list_replicate)

lemma tilt_of_band_sum_2697:
  "computeHighFreqAvg (replicate 89 0 @ replicate 123 19 @ replicate 18 20 @ replicate 26 0)
     = Num (fl (2697 / 141))"
  by (simp add: computeHighFreqAvg_256 sum_list_replicate)

text \<open>
  The opposite case: band sums 18 during calibration and 2556 at the tick. The rounded
  tilt exceeds the exact sum \<open>baseline.tilt + 18\<close> but equals the rounded one, and the
  candle stays lit.
\<close>

lemma page_decision_silent:
  "\<not> blow_decision (Num 0) (Num (fl (2556 / 141))) (Num 0) (Num (fl (18 / 141)))
   \<and> fl (2556 / 141) > fl (18 / 141) + 18"
proof -
  have code: "\<not> blow_decision (Num 0) (Num (fl (2556 / 141))) (Num 0) (Num (fl (18 / 141)))"
    unfolding blow_decision_Num fl_18_141 fl_2556_141 fl_18_141_plus_18
    by (simp add: fl_numeral)
  have rule: "fl (2556 / 141) > fl (18 / 141) + 18"
    unfolding fl_18_141 fl_2556_141 by simp
  from code rule show ?thesis by simp
qed

lemma page_session_stays_lit:
  "startAnalyser 0
     [((replicate 512 128, replicate 89 0 @ replicate 18 1 @ replicate 149 0), 1500),
      ((replicate 512 128,
        replicate 89 0 @ replicate 123 18 @ replicate 18 19 @ replicate 26 0), 1516)]
     (initial False)
   = Some \<lparr>baselineRMS = Num 0, baselineHF = Num (fl (18 / 141)), calibrated = True,
            out = False, history = [Classified]\<rparr>"
proof -
  let ?silent = "replicate 512 128 :: uint8array"
  let ?quiet = "replicate 89 0 @ replicate 18 1 @ replicate 149 0 :: uint8array"
  let ?hiss = "replicate 89 0 @ replicate 123 18 @ replicate 18 19 @ replicate 26 0 :: uint8array"
  let ?armed = "\<lparr>baselineRMS = Num 0, baselineHF = Num (fl (18 / 141)), calibrated = True,
            out = False, history = []\<rparr>"
  have pos: "fl (18 / 141) \<noteq> 0" unfolding fl_18_141 by simp
  have b1: "baseline_of [Num 0] = Num 0" by (simp add: baseline_of_def array_get_def)
  have b2: "baseline_of [Num (fl (18 / 141))] = Num (fl (18 / 141))"
    using pos by (simp add: baseline_of_def array_get_def)
  have clock: "\<not> fl (1500 - 0) < 1200" by (simp add: fl_numeral)
  have cal: "calibrate 0 [((?silent, ?quiet), 1500), ((?silent, ?hiss), 1516)] (initial False)
      = Some (?armed, [((?silent, ?hiss), 1516)])"
    unfolding calibrate_def calibrate_step.simps Let_def computeRMS_silent tilt_of_band_sum_18
    using clock b1 b2 by (simp add: initial_def)
  have blow: "\<not> isBlowing (?silent, ?hiss) ?armed"
    unfolding isBlowing_def
    using page_decision_silent by (simp add: computeRMS_silent tilt_of_band_sum_2556)
  have "tick (?silent, ?hiss) ?armed
      = \<lparr>baselineRMS = Num 0, baselineHF = Num (fl (18 / 141)), calibrated = True,
            out = False, history = [Classified]\<rparr>"
    using blow by (simp add: tick_def Let_def)
  with cal show ?thesis by (simp add: startAnalyser_def)
qed

text \<open>
  A session on frames of the detector's own sizes in which rounding decides. The band
  sums are 159 during calibration and 2697 at the one tick: in exact arithmetic the tilt
  \<open>2697 / 141\<close> equals \<open>159 / 141 + 18\<close> and would not exceed it, but the rounded tilt
  exceeds the rounded sum and the candle goes out.
\<close>

lemma page_decision_fires:
  "blow_decision (Num 0) (Num (fl (2697 / 141))) (Num 0) (Num (fl (159 / 141)))
   \<and> (2697 / 141 :: real) = 159 / 141 + 18"
proof -
  have "fl (2697 / 141) > fl (fl (159 / 141) + 18)"
    unfolding fl_159_141 fl_2697_141 fl_159_141_plus_18 by simp
  then show ?thesis by (simp add: blow_decision_Num)
qed

lemma page_session_fires:
  "startAnalyser 0
     [((replicate 512 128,
        replicate 89 0 @ replicate 123 1 @ replicate 18 2 @ replicate 26 0), 1500),
      ((replicate 512 128,
        replicate 89 0 @ replicate 123 19 @ replicate 18 20 @ replicate 26 0), 1516)]
     (initial False)
   = Some \<lparr>baselineRMS = Num 0, baselineHF = Num (fl (159 / 141)), calibrated = True,
            out = True, history = [Classified, AddedOut]\<rparr>"
proof -
  let ?silent = "replicate 512 128 :: uint8array"
  let ?quiet = "replicate 89 0 @ replicate 123 1 @ replicate 18 2 @ replicate 26 0 :: uint8array"
  let ?hiss = "replicate 89 0 @ replicate 123 19 @ replicate 18 20 @ replicate 26 0 :: uint8array"
  let ?armed = "\<lparr>baselineRMS = Num 0, baselineHF = Num (fl (159 / 141)), calibrated = True,
            out = False, history = []\<rparr>"
  have pos: "fl (159 / 141) \<noteq> 0" unfolding fl_159_141 by simp
  have b1: "baseline_of [Num 0] = Num 0" by (simp add: baseline_of_def array_get_def)
  have b2: "baseline_of [Num (fl (159 / 141))] = Num (fl (159 / 141))"
    using pos by (simp add: baseline_of_def array_get_def)
  have clock: "\<not> fl (1500 - 0) < 1200" by (simp add: fl_numeral)
  have cal: "calibrate 0 [((?silent, ?quiet), 1500), ((?silent, ?hiss), 1516)] (initial False)
      = Some (?armed, [((?silent, ?hiss), 1516)])"
    unfolding calibrate_def calibrate_step.simps Let_def computeRMS_silent tilt_of_band_sum_159
    using clock b1 b2 by (simp add: initial_def)
  have blow: "isBlowing (?silent, ?hiss) ?armed"
    unfolding isBlowing_def
    using page_decision_fires by (simp add: computeRMS_silent tilt_of_band_sum_2697)
  have "tick (?silent, ?hiss) ?armed
      = \<lparr>baselineRMS = Num 0, baselineHF = Num (fl (159 / 141)), calibrated = True,
            out = True, history = [Classified, AddedOut]\<rparr>"
    using blow by (simp add: tick_def Let_def)
  with cal show ?thesis by (simp add: startAnalyser_def)
qed

lemma tick_fields:
  "baselineRMS (tick fr s) = baselineRMS s \<and> baselineHF (tick fr s) = baselineHF s
   \<and> calibrated (tick fr s) = calibrated s"
  by (simp add: tick_def Let_def)

lemma loopDetect_fields:
  "baselineRMS (loopDetect frs s) = baselineRMS s \<and> baselineHF (loopDetect frs s) = baselineHF s
   \<and> calibrated (loopDetect frs s) = calibrated s"
  by (induction frs arbitrary: s) (simp_all add: tick_fields)

lemma tick_out: "out s \<Longrightarrow> tick fr s = s"
  by (simp add: tick_def)

lemma loopDetect_out: "out s \<Longrightarrow> loopDetect frs s = s"
  by (induction frs) (simp_all add: tick_out)

lemma tick_out_mono: "out s \<Longrightarrow> out (tick fr s)"
  by (simp add: tick_def)

lemma tick_added:
  "count_list (history (tick fr s)) AddedOut =
     count_list (history s) AddedOut + (if out (tick fr s) \<and> \<not> out s then 1 else 0)"
  by (simp add: tick_def Let_def)

lemma loopDetect_added:
  "count_list (history (loopDetect frs s)) AddedOut =
     count_list (history s) AddedOut + (if out (loopDetect frs s) \<and> \<not> out s then 1 else 0)"
proof (induction frs arbitrary: s)
  case Nil
  show ?case by simp
next
  case (Cons fr frs)
  show ?case
  proof (cases "out (tick fr s)")
    case True
    then have "loopDetect frs (tick fr s) = tick fr s" by (rule loopDetect_out)
    then show ?thesis using True by (simp add: tick_added)
  next
    case False
    then have "\<not> out s" using tick_out_mono by blast
    with False Cons [of "tick fr s"] show ?thesis by (simp add: tick_added)
  qed
qed

lemma tick_classified:
  "count_list (history (tick fr s)) Classified =
     count_list (history s) Classified + (if calibrated s \<and> \<not> out s then 1 else 0)"
  by (simp add: tick_def Let_def)

lemma tick_skip: "\<not> (calibrated s \<and> \<not> out s) \<Longrightarrow> tick fr s = s"
  by (auto simp: tick_def)

lemma startAnalyser_result:
  "startAnalyser t0 env s = Some s' \<Longrightarrow>
   \<exists>s1 rest. calibrate t0 env s = Some (s1, rest) \<and> s' = loopDetect (map fst rest) s1"
  by (auto simp: startAnalyser_def split: option.splits)

lemma loopDetect_history:
  "\<not> out s \<Longrightarrow> calibrated s \<Longrightarrow>
   \<exists>k. history (loopDetect frs s) =
         history s @ replicate k Classified @ (if out (loopDetect frs s) then [AddedOut] else [])"
proof (induction frs arbitrary: s)
  case Nil
  then have "history (loopDetect [] s) = history s @ replicate 0 Classified @ (if out (loopDetect [] s) then [AddedOut] else [])"
    by simp
  then show ?case by blast
next
  case (Cons fr frs)
  show ?case
  proof (cases "isBlowing fr s")
    case True
    with Cons.prems have t: "tick fr s = s\<lparr>history := history s @ [Classified], out := True, history := history s @ [Classified] @ [AddedOut]\<rparr>"
      by (simp add: tick_def Let_def)
    then have "out (tick fr s)" by simp
    then have "loopDetect frs (tick fr s) = tick fr s" by (rule loopDetect_out)
    with t have "history (loopDetect (fr # frs) s) = history s @ replicate 1 Classified @ (if out (loopDetect (fr # frs) s) then [AddedOut] else [])"
      by simp
    then show ?thesis by blast
  next
    case False
    with Cons.prems have t: "tick fr s = s\<lparr>history := history s @ [Classified]\<rparr>"
      by (simp add: tick_def Let_def)
    then have "\<not> out (tick fr s)" "calibrated (tick fr s)" using Cons.prems by simp_all
    from Cons.IH [OF this] obtain k where
      "history (loopDetect frs (tick fr s)) = history (tick fr s) @ replicate k Classified @ (if out (loopDetect frs (tick fr s)) then [AddedOut] else [])"
      by blast
    with t have "history (loopDetect (fr # frs) s) = history s @ replicate (Suc k) Classified @ (if out (loopDetect (fr # frs) s) then [AddedOut] else [])"
      by (simp add: replicate_app_Cons_same)
    then show ?thesis by blast
  qed
qed

text \<open>
  A short session, evaluated: one calibration frame read 1500 ms after the start (a
  time-domain buffer holding the single sample 0, whose energy is 100, and a one-bin
  spectrum, whose band is empty), then one detection frame whose band is at 255.
\<close>

lemma calibrate_one:
  "calibrate 0 [(([0], [7]), 1500), (([0], [255, 255, 255, 255]), 1600)] (initial False)
     = Some (\<lparr>baselineRMS = Num 100, baselineHF = Num 0, calibrated = True, out = False,
              history = []\<rparr>, [(([0], [255, 255, 255, 255]), 1600)])"
  by (simp add: calibrate_def initial_def Let_def rms_full hf_one baseline_of_def array_get_def
      fl_numeral)

lemma session_one:
  "startAnalyser 0 [(([0], [7]), 1500), (([0], [255, 255, 255, 255]), 1600)] (initial False)
     = Some \<lparr>baselineRMS = Num 100, baselineHF = Num 0, calibrated = True, out = True,
              history = [Classified, AddedOut]\<rparr>"
  by (simp add: startAnalyser_def calibrate_one tick_def isBlowing_def rms_full hf_255
      blow_decision_def Let_def fl_numeral)

section \<open>The claims\<close>

text \<open>
  \<^bold>\<open>C1.\<close> As stated, with the sums of the rule taken exactly, the claim fails: the code
  compares with the sums rounded to doubles. What holds: for finite features
  \<open>{energy, tilt}\<close> and a finite baseline, the decision of \<^verbatim>\<open>isBlowing\<close> is true exactly
  when \<open>tilt > fl(baseline.tilt + 18)\<close>, or \<open>tilt > max(fl(baseline.tilt + 6), 14)\<close> and
  (\<open>energy > max(fl(baseline.energy + 5), 10)\<close> or \<open>energy > fl(baseline.energy + 12)\<close>),
  where \<open>fl\<close> rounds a sum to the nearest double. When both baseline values are integers
  below \<open>2 ^ 52\<close> in magnitude the sums are exact and the rule is the one of the claim;
  with the baseline at 0 and energy 0, tilt 19 gives true and tilt 18 gives false. A tilt
  or a baseline tilt that is \<^verbatim>\<open>NaN\<close> gives false, and with an energy or a baseline energy
  that is \<^verbatim>\<open>NaN\<close> the decision is \<open>tilt > fl(baseline.tilt + 18)\<close>. \<^verbatim>\<open>isBlowing\<close> applies
  this decision to the two features of the frame it reads and to the stored baseline.
\<close>

theorem isBlowing_decision_rule_rounded:
  "blow_decision (Num energy) (Num tilt) (Num bEnergy) (Num bTilt) =
     (tilt > fl (bTilt + 18) \<or>
      (tilt > max (fl (bTilt + 6)) 14 \<and>
       (energy > max (fl (bEnergy + 5)) 10 \<or> energy > fl (bEnergy + 12))))
   \<and> (\<bar>i\<bar> < 2 ^ 52 \<and> \<bar>j\<bar> < 2 ^ 52 \<longrightarrow>
        blow_decision (Num energy) (Num tilt) (Num (of_int i)) (Num (of_int j)) =
          (tilt > of_int j + 18 \<or>
           (tilt > max (of_int j + 6) 14 \<and>
            (energy > max (of_int i + 5) 10 \<or> energy > of_int i + 12))))
   \<and> blow_decision (Num 0) (Num 19) (Num 0) (Num 0)
   \<and> \<not> blow_decision (Num 0) (Num 18) (Num 0) (Num 0)
   \<and> \<not> blow_decision rms NaN bRMS bHF
   \<and> \<not> blow_decision rms hf bRMS NaN
   \<and> blow_decision NaN (Num tilt) bRMS (Num bTilt) = (tilt > fl (bTilt + 18))
   \<and> blow_decision rms (Num tilt) NaN (Num bTilt) = (tilt > fl (bTilt + 18))
   \<and> isBlowing (td, fd) s =
       blow_decision (computeRMS td) (computeHighFreqAvg fd) (baselineRMS s) (baselineHF s)"
proof -
  have a: "\<bar>i\<bar> < 2 ^ 52 \<and> \<bar>j\<bar> < 2 ^ 52 \<longrightarrow>
        blow_decision (Num energy) (Num tilt) (Num (of_int i)) (Num (of_int j)) =
          (tilt > of_int j + 18 \<or>
           (tilt > max (of_int j + 6) 14 \<and>
            (energy > max (of_int i + 5) 10 \<or> energy > of_int i + 12)))"
    using blow_decision_int_baseline [of i j energy tilt] by blast
  have b: "blow_decision (Num 0) (Num 19) (Num 0) (Num 0)"
    "\<not> blow_decision (Num 0) (Num 18) (Num 0) (Num 0)"
    by (simp_all add: blow_decision_def fl_numeral)
  have c: "isBlowing (td, fd) s =
       blow_decision (computeRMS td) (computeHighFreqAvg fd) (baselineRMS s) (baselineHF s)"
    by (simp add: isBlowing_def)
  from blow_decision_Num [of energy tilt bEnergy bTilt] a b
    blow_decision_NaN(1) [of rms bRMS bHF] blow_decision_NaN(2) [of rms hf bRMS]
    blow_decision_NaN(3) [of tilt bRMS bTilt] blow_decision_NaN(4) [of rms tilt bTilt] c
  show ?thesis by (intro conjI)
qed

text \<open>
  The claim's rule with exact sums fails at a tilt and a baseline tilt that frames of the
  detector produce (\<open>page_session_stays_lit\<close>), with energy and baseline energy 0: the
  tilt exceeds the exact sum \<open>baseline.tilt + 18\<close>, so the rule of the claim is true, but
  it equals the rounded sum and the code returns false.
\<close>

theorem isBlowing_exact_sum_counterexample:
  "\<not> (blow_decision (Num 0) (Num (fl (2556 / 141))) (Num 0) (Num (fl (18 / 141))) =
       (fl (2556 / 141) > fl (18 / 141) + 18 \<or>
        (fl (2556 / 141) > max (fl (18 / 141) + 6) 14 \<and>
         ((0 :: real) > max (0 + 5) 10 \<or> (0 :: real) > 0 + 12))))"
  using page_decision_silent by simp

text \<open>Baseline 0 is an integer baseline: there the rule of the claim holds as stated.\<close>

theorem isBlowing_decision_rule_rounded_witness:
  "\<bar>0 :: int\<bar> < 2 ^ 52
   \<and> blow_decision (Num 0) (Num 19) (Num (of_int 0)) (Num (of_int 0)) =
       ((19 :: real) > of_int 0 + 18 \<or>
        ((19 :: real) > max (of_int 0 + 6) 14 \<and>
         ((0 :: real) > max (of_int 0 + 5) 10 \<or> (0 :: real) > of_int 0 + 12)))
   \<and> blow_decision (Num 0) (Num 19) (Num 0) (Num 0)"
proof -
  have h: "\<bar>0 :: int\<bar> < 2 ^ 52 \<and> \<bar>0 :: int\<bar> < 2 ^ 52" by simp
  from isBlowing_decision_rule_rounded [of 0 19 0 0 0 0] h
  have "blow_decision (Num 0) (Num 19) (Num (of_int 0)) (Num (of_int 0)) =
       ((19 :: real) > of_int 0 + 18 \<or>
        ((19 :: real) > max (of_int 0 + 6) 14 \<and>
         ((0 :: real) > max (of_int 0 + 5) 10 \<or> (0 :: real) > of_int 0 + 12)))"
    and "blow_decision (Num 0) (Num 19) (Num 0) (Num 0)"
    by blast+
  with h show ?thesis by blast
qed

text \<open>
  \<^bold>\<open>C2.\<close> The baseline taken from a sequence of finite samples is the element at index
  \<open>floor(n/2)\<close> of the sequence sorted ascending, and 0 for the empty sequence;
  \<open>[5,5,5]\<close> gives 5 and \<open>[1,1,1,1,100]\<close> gives 1. Every calibration that completes has
  read a non-empty prefix \<open>used\<close> of the frames, and its two baselines are the values so
  taken from the energy samples and from the tilt samples of that prefix. The tilt
  samples are always finite numbers, the energy samples are when no time-domain buffer
  is empty.
\<close>

theorem calibrate_baseline_median:
  "baseline_of (map Num xs) = (if xs = [] then Num 0 else Num (sort xs ! (length xs div 2)))
   \<and> baseline_of [Num 5, Num 5, Num 5] = Num 5
   \<and> baseline_of [Num 1, Num 1, Num 1, Num 1, Num 100] = Num 1
   \<and> (calibrate t0 env s = Some (s', rest) \<longrightarrow>
        (\<exists>used. env = used @ rest \<and> used \<noteq> []
           \<and> baselineRMS s' = baseline_of (rms_samples used)
           \<and> baselineHF s' = baseline_of (hf_samples used)
           \<and> (\<exists>ts. hf_samples used = map Num ts)
           \<and> ((\<forall>e \<in> set used. fst (fst e) \<noteq> []) \<longrightarrow> (\<exists>es. rms_samples used = map Num es))))"
proof -
  have a: "baseline_of (map Num xs) = (if xs = [] then Num 0 else Num (sort xs ! (length xs div 2)))"
    by (rule baseline_of_Num)
  have b: "baseline_of [Num 5, Num 5, Num 5] = Num 5"
    using baseline_of_Num [of "[5, 5, 5]"] by simp
  have c: "baseline_of [Num 1, Num 1, Num 1, Num 1, Num 100] = Num 1"
    using baseline_of_Num [of "[1, 1, 1, 1, 100]"] by simp
  have d: "calibrate t0 env s = Some (s', rest) \<longrightarrow>
        (\<exists>used. env = used @ rest \<and> used \<noteq> []
           \<and> baselineRMS s' = baseline_of (rms_samples used)
           \<and> baselineHF s' = baseline_of (hf_samples used)
           \<and> (\<exists>ts. hf_samples used = map Num ts)
           \<and> ((\<forall>e \<in> set used. fst (fst e) \<noteq> []) \<longrightarrow> (\<exists>es. rms_samples used = map Num es)))"
  proof
    assume "calibrate t0 env s = Some (s', rest)"
    from calibrate_result [OF this] obtain used where u: "env = used @ rest" "used \<noteq> []"
      "s' = s\<lparr>baselineRMS := baseline_of (rms_samples used),
              baselineHF := baseline_of (hf_samples used), calibrated := True\<rparr>" by blast
    from u(3) have "baselineRMS s' = baseline_of (rms_samples used)"
      "baselineHF s' = baseline_of (hf_samples used)" by simp_all
    with u(1,2) hf_samples_finite [of used] rms_samples_finite [of used]
    show "\<exists>used. env = used @ rest \<and> used \<noteq> []
           \<and> baselineRMS s' = baseline_of (rms_samples used)
           \<and> baselineHF s' = baseline_of (hf_samples used)
           \<and> (\<exists>ts. hf_samples used = map Num ts)
           \<and> ((\<forall>e \<in> set used. fst (fst e) \<noteq> []) \<longrightarrow> (\<exists>es. rms_samples used = map Num es))"
      by blast
  qed
  from a b c d show ?thesis by (intro conjI)
qed

text \<open>
  The hypotheses of C2 are met by the session evaluated above: its calibration reads one
  frame, whose time-domain buffer is not empty, and stores the energy 100 and the tilt 0.
\<close>

theorem calibrate_baseline_median_witness:
  "calibrate 0 [(([0], [7]), 1500), (([0], [255, 255, 255, 255]), 1600)] (initial False)
     = Some (\<lparr>baselineRMS = Num 100, baselineHF = Num 0, calibrated = True, out = False,
              history = []\<rparr>, [(([0], [255, 255, 255, 255]), 1600)])
   \<and> fst (fst ((([0], [7]) :: frame), 1500 :: real)) \<noteq> []
   \<and> rms_samples [(([0], [7]), 1500)] = map Num [100]
   \<and> hf_samples [(([0], [7]), 1500)] = map Num [0]
   \<and> baseline_of (rms_samples [(([0], [7]), 1500)]) = Num 100
   \<and> baseline_of (hf_samples [(([0], [7]), 1500)]) = Num 0
   \<and> baseline_of (map Num [3, 1, 2]) = Num 2"
proof -
  let ?env = "[((([0], [7]) :: frame), 1500 :: real), (([0], [255, 255, 255, 255]), 1600)]"
  let ?s' = "\<lparr>baselineRMS = Num 100, baselineHF = Num 0, calibrated = True, out = False,
              history = []\<rparr>"
  let ?rest = "[((([0], [255, 255, 255, 255]) :: frame), 1600 :: real)]"
  have run: "calibrate 0 ?env (initial False) = Some (?s', ?rest)" by (rule calibrate_one)
  have ne: "fst (fst ((([0], [7]) :: frame), 1500 :: real)) \<noteq> []" by simp
  have smp: "rms_samples [(([0], [7]), 1500)] = map Num [100]"
    "hf_samples [(([0], [7]), 1500)] = map Num [0]"
    by (simp_all add: rms_samples_def hf_samples_def rms_full hf_one)
  from calibrate_baseline_median [of "[3, 1, 2]" 0 ?env "initial False" ?s' ?rest] run
  obtain used where u: "?env = used @ ?rest"
    "baselineRMS ?s' = baseline_of (rms_samples used)"
    "baselineHF ?s' = baseline_of (hf_samples used)"
    and m: "baseline_of (map Num [3, 1, 2]) = Num 2"
    by auto
  from u(1) have "used = [(([0], [7]), 1500)]" by (cases used) auto
  with u(2,3) have "baseline_of (rms_samples [(([0], [7]), 1500)]) = Num 100"
    "baseline_of (hf_samples [(([0], [7]), 1500)]) = Num 0" by simp_all
  with run ne smp m show ?thesis by (intro conjI)
qed

text \<open>
  \<^bold>\<open>C3.\<close> As stated (for an even number \<open>n \<ge> 2\<close> of samples the baseline is the lower
  median, the element at position \<open>n/2 - 1\<close> of the sorted sequence) the claim fails: the
  code takes index \<open>floor(n/2)\<close>, which for even \<open>n\<close> is \<open>n/2\<close>. What holds is that the
  baseline of an even number \<open>n \<ge> 2\<close> of finite samples is the element at position \<open>n/2\<close>
  of the sorted sequence, the upper of the two middle elements.
\<close>

theorem calibrate_even_length_upper_median:
  "even (length xs) \<Longrightarrow> 2 \<le> length xs \<Longrightarrow>
   baseline_of (map Num xs) = Num (sort xs ! (length xs div 2))
   \<and> sort xs ! (length xs div 2 - 1) \<le> sort xs ! (length xs div 2)"
proof -
  assume "even (length xs)" and len: "2 \<le> length xs"
  then have ne: "xs \<noteq> []" by auto
  have "length xs div 2 < length (sort xs)" using len by simp
  then have "sort xs ! (length xs div 2 - 1) \<le> sort xs ! (length xs div 2)"
    by (intro sorted_nth_mono) simp_all
  with ne show ?thesis by (simp add: baseline_of_Num)
qed

text \<open>
  The two samples 1 and 2: the baseline is 2, the element at position \<open>n/2 - 1 = 0\<close> of
  the sorted sequence is 1.
\<close>

theorem lower_median_counterexample:
  "even (length [1, 2 :: real]) \<and> 2 \<le> length [1, 2 :: real]
   \<and> baseline_of (map Num [1, 2]) \<noteq> Num (sort [1, 2 :: real] ! (length [1, 2 :: real] div 2 - 1))"
  using baseline_of_Num [of "[1, 2]"] by simp

theorem calibrate_even_length_upper_median_witness:
  "even (length [1, 2 :: real]) \<and> 2 \<le> length [1, 2 :: real]
   \<and> baseline_of (map Num [1, 2]) = Num 2"
  using calibrate_even_length_upper_median [of "[1, 2]"] by simp

text \<open>
  \<^bold>\<open>C4.\<close> Over any sequence of ticks, \<^verbatim>\<open>classList.add("out")\<close> is called once more than
  before exactly when the run takes the candle from not out to out, and otherwise not
  at all: at most once. Once the candle is out, a tick and any run of ticks leave the
  whole state unchanged, the history of calls included. A session started with the
  variables as initialised calls \<^verbatim>\<open>classList.add("out")\<close> at most once.
\<close>

theorem trigger_fires_at_most_once:
  "count_list (history (loopDetect frs s)) AddedOut =
     count_list (history s) AddedOut + (if out (loopDetect frs s) \<and> \<not> out s then 1 else 0)
   \<and> (out s \<longrightarrow> tick fr s = s \<and> loopDetect frs s = s)
   \<and> (startAnalyser t0 env (initial snuffed) = Some s' \<longrightarrow>
        count_list (history s') AddedOut \<le> 1)"
proof -
  have "startAnalyser t0 env (initial snuffed) = Some s' \<longrightarrow>
        count_list (history s') AddedOut \<le> 1"
  proof
    assume "startAnalyser t0 env (initial snuffed) = Some s'"
    from startAnalyser_result [OF this] obtain s1 rest where
      c: "calibrate t0 env (initial snuffed) = Some (s1, rest)"
      and l: "s' = loopDetect (map fst rest) s1" by blast
    from calibrate_keeps [OF c] have "history s1 = []" by (simp add: initial_def)
    with l loopDetect_added [of "map fst rest" s1]
    show "count_list (history s') AddedOut \<le> 1" by simp
  qed
  with loopDetect_added [of frs s] tick_out [of s fr] loopDetect_out [of s frs]
  show ?thesis by blast
qed

theorem trigger_fires_at_most_once_witness:
  "out (initial True) \<and> tick ([0], [255, 255, 255, 255]) (initial True) = initial True
   \<and> loopDetect [([0], [255, 255, 255, 255])] (initial True) = initial True
   \<and> startAnalyser 0 [(([0], [7]), 1500), (([0], [255, 255, 255, 255]), 1600)] (initial False)
     = Some \<lparr>baselineRMS = Num 100, baselineHF = Num 0, calibrated = True, out = True,
              history = [Classified, AddedOut]\<rparr>
   \<and> count_list [Classified, AddedOut] AddedOut \<le> 1"
proof -
  have o: "out (initial True)" by (simp add: initial_def)
  note run = session_one
  from trigger_fires_at_most_once [of "[([0], [255, 255, 255, 255])]" "initial True" "([0], [255, 255, 255, 255])"
      0 "[(([0], [7]), 1500), (([0], [255, 255, 255, 255]), 1600)]" False
      "\<lparr>baselineRMS = Num 100, baselineHF = Num 0, calibrated = True, out = True,
              history = [Classified, AddedOut]\<rparr>"] o run
  show ?thesis by simp
qed

text \<open>
  \<^bold>\<open>C5.\<close> A tick calls \<^verbatim>\<open>isBlowing\<close> only in a state with \<open>calibrated\<close> set and the candle
  not out; in every other state it changes nothing. Calibration itself calls neither
  \<^verbatim>\<open>isBlowing\<close> nor \<^verbatim>\<open>classList.add\<close>. The calls of a whole session with a lit candle
  are therefore some number of classifications, all after calibration, followed by
  \<^verbatim>\<open>classList.add("out")\<close> if the candle went out, and nothing after that.
\<close>

theorem classifier_only_when_armed:
  "(count_list (history (tick fr s)) Classified \<noteq> count_list (history s) Classified
      \<longrightarrow> calibrated s \<and> \<not> out s)
   \<and> (\<not> (calibrated s \<and> \<not> out s) \<longrightarrow> tick fr s = s)
   \<and> (calibrate t0 env s = Some (s1, rest) \<longrightarrow> history s1 = history s)
   \<and> (startAnalyser t0 env (initial False) = Some s' \<longrightarrow>
        (\<exists>k. history s' = replicate k Classified @ (if out s' then [AddedOut] else [])))"
proof -
  have a: "count_list (history (tick fr s)) Classified \<noteq> count_list (history s) Classified
      \<longrightarrow> calibrated s \<and> \<not> out s"
    by (simp add: tick_classified)
  have b: "\<not> (calibrated s \<and> \<not> out s) \<longrightarrow> tick fr s = s"
    using tick_skip by blast
  have c: "calibrate t0 env s = Some (s1, rest) \<longrightarrow> history s1 = history s"
    using calibrate_keeps by blast
  have d: "startAnalyser t0 env (initial False) = Some s' \<longrightarrow>
        (\<exists>k. history s' = replicate k Classified @ (if out s' then [AddedOut] else []))"
  proof
    assume "startAnalyser t0 env (initial False) = Some s'"
    from startAnalyser_result [OF this] obtain s2 rest2 where
      c: "calibrate t0 env (initial False) = Some (s2, rest2)"
      and l: "s' = loopDetect (map fst rest2) s2" by blast
    from calibrate_keeps [OF c] have k: "history s2 = []" "\<not> out s2" "calibrated s2"
      by (simp_all add: initial_def)
    from loopDetect_history [OF k(2,3), of "map fst rest2"] k(1) l
    show "\<exists>k. history s' = replicate k Classified @ (if out s' then [AddedOut] else [])"
      by simp
  qed
  from a b c d show ?thesis by (intro conjI)
qed

theorem classifier_only_when_armed_witness:
  "count_list (history (tick ([0], [7]) \<lparr>baselineRMS = Num 100, baselineHF = Num 0,
       calibrated = True, out = False, history = []\<rparr>)) Classified \<noteq> 0
   \<and> tick ([0], [255, 255, 255, 255]) (initial False) = initial False
   \<and> calibrate 0 [(([0], [7]), 1500), (([0], [255, 255, 255, 255]), 1600)] (initial False)
     = Some (\<lparr>baselineRMS = Num 100, baselineHF = Num 0, calibrated = True, out = False,
              history = []\<rparr>, [(([0], [255, 255, 255, 255]), 1600)])
   \<and> startAnalyser 0 [(([0], [7]), 1500), (([0], [255, 255, 255, 255]), 1600)] (initial False)
     = Some \<lparr>baselineRMS = Num 100, baselineHF = Num 0, calibrated = True, out = True,
              history = replicate 1 Classified @ [AddedOut]\<rparr>"
proof -
  let ?armed = "\<lparr>baselineRMS = Num 100, baselineHF = Num 0,
       calibrated = True, out = False, history = []\<rparr>"
  let ?env = "[((([0], [7]) :: frame), 1500 :: real), (([0], [255, 255, 255, 255]), 1600)]"
  have a: "count_list (history (tick ([0], [7]) ?armed)) Classified \<noteq> count_list (history ?armed) Classified"
    by (simp add: tick_def isBlowing_def rms_full hf_one blow_decision_def Let_def)
  have b: "\<not> (calibrated (initial False) \<and> \<not> out (initial False))"
    by (simp add: initial_def)
  from classifier_only_when_armed [of "([0], [7])" ?armed] a
  have "calibrated ?armed \<and> \<not> out ?armed" by blast
  moreover from classifier_only_when_armed [of "([0], [255, 255, 255, 255])" "initial False" 0 ?env ?armed
      "[(([0], [255, 255, 255, 255]), 1600)]"
      "\<lparr>baselineRMS = Num 100, baselineHF = Num 0, calibrated = True, out = True,
              history = [Classified, AddedOut]\<rparr>"] b calibrate_one session_one
  have "tick ([0], [255, 255, 255, 255]) (initial False) = initial False"
    "history ?armed = history (initial False)"
    "\<exists>k. [Classified, AddedOut] = replicate k Classified @ [AddedOut]"
    by simp_all
  ultimately show ?thesis using a calibrate_one session_one by simp
qed

text \<open>
  \<^bold>\<open>C6.\<close> With the energy and the baseline fixed, the decision is monotone in the tilt:
  if it is true at \<open>t1\<close> and \<open>t1 \<le> t2\<close> then it is true at \<open>t2\<close>. The energy and the
  baseline may be any numbers, \<^verbatim>\<open>NaN\<close> included.
\<close>

theorem classifier_monotone_in_tilt:
  "t1 \<le> t2 \<Longrightarrow> blow_decision rms (Num t1) bRMS bHF \<Longrightarrow> blow_decision rms (Num t2) bRMS bHF"
  by (rule blow_decision_mono)

theorem classifier_monotone_in_tilt_witness:
  "(19 :: real) \<le> 20 \<and> blow_decision (Num 0) (Num 19) (Num 0) (Num 0)
   \<and> blow_decision (Num 0) (Num 20) (Num 0) (Num 0)"
proof -
  have le: "(19 :: real) \<le> 20" by simp
  have b: "blow_decision (Num 0) (Num 19) (Num 0) (Num 0)"
    by (simp add: blow_decision_def fl_numeral)
  from classifier_monotone_in_tilt [OF le b] le b show ?thesis by simp
qed

text \<open>
  \<^bold>\<open>C7.\<close> Feature extraction is total and deterministic. Both features are functions of
  the buffer alone, defined for every buffer (the loops terminate). On a non-empty
  time-domain buffer \<^verbatim>\<open>computeRMS\<close> returns a number, never \<^verbatim>\<open>NaN\<close>;
  \<^verbatim>\<open>computeHighFreqAvg\<close> returns a number on every frequency buffer; equal buffers
  give equal features.
\<close>

theorem feature_extraction_total:
  "(td \<noteq> [] \<longrightarrow> (\<exists>r. computeRMS td = Num r))
   \<and> (\<exists>r. computeHighFreqAvg fd = Num r)
   \<and> (td = td' \<and> fd = fd' \<longrightarrow>
        computeRMS td = computeRMS td' \<and> computeHighFreqAvg fd = computeHighFreqAvg fd')"
  using computeRMS_range [of td] computeHighFreqAvg_range [of fd] by blast

theorem feature_extraction_total_witness:
  "[0 :: 8 word] \<noteq> [] \<and> computeRMS [0] = Num 100 \<and> computeHighFreqAvg [1, 2, 3, 4] = Num (5 / 2)"
  using feature_extraction_total [of "[0]" "[1, 2, 3, 4]" "[0]" "[1, 2, 3, 4]"] rms_full hf_four by simp

text \<open>
  \<^bold>\<open>C8.\<close> When the band \<open>[floor(0.35 L), floor(0.9 L))\<close> of a frequency buffer of length
  \<open>L\<close> is empty, \<^verbatim>\<open>computeHighFreqAvg\<close> returns 0.
\<close>

theorem degenerate_band_gives_zero:
  "hf_end (length freqData) \<le> hf_start (length freqData) \<Longrightarrow> computeHighFreqAvg freqData = Num 0"
  by (simp add: computeHighFreqAvg_def hf_loop_empty)

text \<open>
  A buffer of one bin has the empty band \<open>[0, 0)\<close>.
\<close>

theorem degenerate_band_gives_zero_witness:
  "hf_end (length [7 :: 8 word]) \<le> hf_start (length [7 :: 8 word])
   \<and> computeHighFreqAvg [7] = Num 0"
proof -
  have e: "hf_end (length [7 :: 8 word]) \<le> hf_start (length [7 :: 8 word])"
    by (simp add: index_eval)
  from degenerate_band_gives_zero [OF e] e show ?thesis by simp
qed

text \<open>
  \<^bold>\<open>C9.\<close> Detection never writes the baseline: a tick, and any run of ticks, leaves
  \<^verbatim>\<open>baselineRMS\<close>, \<^verbatim>\<open>baselineHF\<close> and \<^verbatim>\<open>calibrated\<close> as they were. (\<^verbatim>\<open>isBlowing\<close> returns
  its decision and has no state to return: it only reads.) The statement holds in every
  state, so in particular in those after calibration.
\<close>

theorem baseline_frozen_by_detection:
  "baselineRMS (loopDetect frs s) = baselineRMS s
   \<and> baselineHF (loopDetect frs s) = baselineHF s
   \<and> calibrated (loopDetect frs s) = calibrated s
   \<and> baselineRMS (tick fr s) = baselineRMS s
   \<and> baselineHF (tick fr s) = baselineHF s
   \<and> calibrated (tick fr s) = calibrated s"
  using loopDetect_fields [of frs s] tick_fields [of fr s] by simp

text \<open>
  \<^bold>\<open>C10.\<close> On a non-empty buffer of bytes \<^verbatim>\<open>computeRMS\<close> returns a number in the closed
  interval from 0 to 100, and on every buffer of bytes \<^verbatim>\<open>computeHighFreqAvg\<close> returns a
  number in the closed interval from 0 to 255. Both upper ends are reached
  (\<open>rms_full\<close>, \<open>hf_255\<close>).
\<close>

theorem feature_ranges:
  "(uint8 \<noteq> [] \<longrightarrow> (\<exists>r. computeRMS uint8 = Num r \<and> 0 \<le> r \<and> r \<le> 100))
   \<and> (\<exists>r. computeHighFreqAvg freqData = Num r \<and> 0 \<le> r \<and> r \<le> 255)"
  using computeRMS_range [of uint8] computeHighFreqAvg_range [of freqData] by blast

theorem feature_ranges_witness:
  "[0 :: 8 word] \<noteq> [] \<and> (\<exists>r. computeRMS [0] = Num r \<and> 0 \<le> r \<and> r \<le> 100)
   \<and> (\<exists>r. computeHighFreqAvg [255, 255, 255, 255] = Num r \<and> 0 \<le> r \<and> r \<le> 255)"
  using feature_ranges [of "[0]" "[255, 255, 255, 255]"] by simp

end
